theory Spec2Isabelle
  imports Main
begin

section \<open>Data model of map-game.js\<close>

text \<open>
  A cell is a pair of tile coordinates \<open>(x, y)\<close>; the pathfinder's path entries
  \<open>{x, y}\<close> are cells. Coordinates are integers and may be negative or beyond the map.
  The same pair type is used for positions in world units (marker, player, pointer).
\<close>

type_synonym cell = "int \<times> int"

text \<open>
  The per-tile metadata entered in Tiled: an optional boolean \<open>collides\<close> and an optional
  numeric \<open>cost\<close>, here an integer. \<open>None\<close> is JavaScript's \<open>undefined\<close> (property absent).
\<close>

record tile_properties =
  collides :: "bool option"
  cost :: "int option"

text \<open>
  A tile of a layer: its \<open>index\<close>, its \<open>properties\<close> object and the collision flag that
  \<open>tile.setCollision\<close> writes.
\<close>

record tile =
  index :: int
  properties :: tile_properties
  collision :: bool

text \<open>
  A layer holds its tiles by cell (\<open>None\<close>: no tile there) and the tile indexes that
  \<open>setCollisionByProperty\<close> has marked as colliding. The layer's map doubles as the store of
  tile objects: a tile reference is the cell it sits at.
\<close>

record layer =
  tiles :: "cell \<rightharpoonup> tile"
  collideIndexes :: "int list"

text \<open>
  The tilemap: its size in tiles, the tile size in world units, and the two layers the
  program queries, \<open>World\<close> (also held as \<open>game.worldLayer\<close>) and \<open>Below Player\<close>.
\<close>

record tilemap =
  width :: nat
  height :: nat
  tileWidth :: nat
  tileHeight :: nat
  worldLayer :: layer
  belowLayer :: layer

text \<open>
  The map's one tileset, which \<open>create\<close> reads both as \<open>tileset\<close> and as
  \<open>game.map.tilesets[0]\<close>: the ID range and the sparse property table.
\<close>

record tileset =
  firstgid :: int
  total :: int
  tileProperties :: "int \<rightharpoonup> tile_properties"

text \<open>
  What the program registers with the pathfinder instance \<open>game.finder\<close>: the grid of tile
  IDs, the acceptable tile IDs, the per-tile costs and the additional points to avoid.
\<close>

record easystar =
  grid :: "int list list"
  acceptableTiles :: "int list"
  costMap :: "int \<rightharpoonup> int"
  pointsToAvoid :: "cell set"

text \<open>One component of a tween: \<open>{ value: v, duration: d }\<close>.\<close>

record tween_prop =
  val :: int
  duration :: int

text \<open>A tween config \<open>{ targets: player, x: {...}, y: {...} }\<close>; the target is always the player.\<close>

record tween =
  tween_x :: tween_prop
  tween_y :: tween_prop

text \<open>
  The global state: \<open>game.map\<close> (whose \<open>World\<close> layer is also \<open>game.worldLayer\<close>),
  \<open>game.finder\<close>, the marker and player positions in world units, the camera scroll, and
  the timelines handed to the tween manager, in order. Console output is not part of the
  state.
\<close>

record game =
  tmap :: tilemap
  finder :: easystar
  marker :: cell
  camera_scroll :: cell
  player :: cell
  timelines :: "tween list list"

text \<open>The only exception the program's own code can raise: a property read on \<open>null\<close>.\<close>

datatype error = TypeError

section \<open>The engine's tile queries\<close>

text \<open>
  Modelled from the spec: the engine's bounds check of a cell against the extents of the
  map's layers.
\<close>

definition inLayerBounds :: "tilemap \<Rightarrow> int \<Rightarrow> int \<Rightarrow> bool" where
  "inLayerBounds m x y \<longleftrightarrow> 0 \<le> x \<and> x < int (width m) \<and> 0 \<le> y \<and> y < int (height m)"

text \<open>
  Modelled from the spec: the engine's lookup of a layer by name (the engine is not part of
  the source); a name that is no layer of the map gives \<open>null\<close>.
\<close>

definition getLayer :: "tilemap \<Rightarrow> string \<Rightarrow> layer option" where
  "getLayer m name =
     (if name = ''World'' then Some (worldLayer m)
      else if name = ''Below Player'' then Some (belowLayer m)
      else None)"

text \<open>
  Modelled from the spec: the engine's tile-layer query \<open>map.getTileAt(x, y, false, name)\<close>
  (the engine is not part of the source). For a cell and a layer name it returns a tile
  reference or "no tile" (\<open>null\<close>); it is bounds-checked, so a cell outside the map has no tile.
\<close>

definition getTileAt :: "tilemap \<Rightarrow> int \<Rightarrow> int \<Rightarrow> string \<Rightarrow> tile option" where
  "getTileAt m x y name =
     (case getLayer m name of
        None \<Rightarrow> None
      | Some l \<Rightarrow> if inLayerBounds m x y then tiles l (x, y) else None)"

text \<open>
  Modelled from the spec: the engine's world-to-tile conversion \<open>map.worldToTileX\<close>, which
  rounds down to the nearest tile (\<open>Math.floor(wx / tileWidth)\<close>, for a positive tile width).
\<close>

definition worldToTileX :: "tilemap \<Rightarrow> int \<Rightarrow> int" where
  "worldToTileX m wx = wx div int (tileWidth m)"

text \<open>
  Modelled from the spec: the engine's \<open>map.worldToTileY\<close>, likewise for rows.
\<close>

definition worldToTileY :: "tilemap \<Rightarrow> int \<Rightarrow> int" where
  "worldToTileY m wy = wy div int (tileHeight m)"

text \<open>
  Modelled from the spec: the engine's \<open>worldLayer.putTileAtWorldXY(index, wx, wy)\<close>. Outside
  the layer it changes nothing and returns \<open>null\<close>; inside, it creates a tile with that index
  where there was none, or overwrites the index of the tile there, recomputes the collision
  flag from the layer's colliding indexes, and returns the tile (here: its cell in the
  \<open>World\<close> layer).
\<close>

definition putTileAtWorldXY :: "int \<Rightarrow> int \<Rightarrow> int \<Rightarrow> tilemap \<Rightarrow> tilemap \<times> cell option" where
  "putTileAtWorldXY idx wx wy m =
     (let x = worldToTileX m wx; y = worldToTileY m wy; l = worldLayer m
      in if inLayerBounds m x y
         then (let old = (case tiles l (x, y) of
                            None \<Rightarrow> \<lparr>index = idx,
                                     properties = \<lparr>collides = None, cost = None\<rparr>,
                                     collision = False\<rparr>
                          | Some t \<Rightarrow> t\<lparr>index := idx\<rparr>);
                   new = old\<lparr>collision := (idx \<in> set (collideIndexes l))\<rparr>
               in (m\<lparr>worldLayer := l\<lparr>tiles := (tiles l)((x, y) \<mapsto> new)\<rparr>\<rparr>, Some (x, y)))
         else (m, None))"

text \<open>
  Modelled from the spec: the engine's \<open>tile.setCollision(b)\<close>, on the \<open>World\<close>-layer tile at a
  cell: it writes the tile's collision flag.
\<close>

definition setCollision :: "cell \<Rightarrow> bool \<Rightarrow> tilemap \<Rightarrow> tilemap" where
  "setCollision c b m =
     (let l = worldLayer m
      in case tiles l c of
           None \<Rightarrow> m
         | Some t \<Rightarrow> m\<lparr>worldLayer := l\<lparr>tiles := (tiles l)(c \<mapsto> t\<lparr>collision := b\<rparr>)\<rparr>\<rparr>)"

section \<open>The pathfinder's registration calls\<close>

text \<open>
  Modelled from the spec: the pathfinding library's \<open>setGrid\<close> (the library is not part of
  the source); it records the grid of tile IDs.
\<close>

definition setGrid :: "int list list \<Rightarrow> easystar \<Rightarrow> easystar" where
  "setGrid g f = f\<lparr>grid := g\<rparr>"

text \<open>
  Modelled from the spec: the pathfinding library's \<open>setAcceptableTiles\<close>; it records the
  accept-list of walkable tile IDs.
\<close>

definition setAcceptableTiles :: "int list \<Rightarrow> easystar \<Rightarrow> easystar" where
  "setAcceptableTiles ts f = f\<lparr>acceptableTiles := ts\<rparr>"

text \<open>
  Modelled from the spec: the pathfinding library's \<open>setTileCost\<close>; it records the cost of one
  tile ID.
\<close>

definition setTileCost :: "int \<Rightarrow> int \<Rightarrow> easystar \<Rightarrow> easystar" where
  "setTileCost t c f = f\<lparr>costMap := (costMap f)(t \<mapsto> c)\<rparr>"

text \<open>
  Modelled from the spec: the pathfinding library's \<open>avoidAdditionalPoint\<close>; it marks one more
  cell as blocked.
\<close>

definition avoidAdditionalPoint :: "int \<Rightarrow> int \<Rightarrow> easystar \<Rightarrow> easystar" where
  "avoidAdditionalPoint x y f = f\<lparr>pointsToAvoid := insert (x, y) (pointsToAvoid f)\<rparr>"

text \<open>
  Modelled from the spec: the default traversal cost of a tile with no registered cost.
\<close>

definition defaultCost :: int where
  "defaultCost = 1"

text \<open>
  Modelled from the spec: the cost the pathfinder uses for a tile ID, the registered one or
  else the default.
\<close>

definition tileCost :: "easystar \<Rightarrow> int \<Rightarrow> int" where
  "tileCost f t = (case costMap f t of None \<Rightarrow> defaultCost | Some k \<Rightarrow> k)"

text \<open>
  Modelled from the spec: \<open>new EasyStar.js()\<close>, a pathfinder with nothing registered yet.
\<close>

definition new_easystar :: easystar where
  "new_easystar = \<lparr>grid = [], acceptableTiles = [], costMap = Map.empty, pointsToAvoid = {}\<rparr>"

section \<open>game.checkCollision and game.getTileID\<close>

text \<open>
  \<open>if (tile == null) return false; return tile.properties.collides == true;\<close>
\<close>

definition checkCollision :: "game \<Rightarrow> int \<Rightarrow> int \<Rightarrow> bool" where
  "checkCollision g x y =
     (case getTileAt (tmap g) x y ''World'' of
        None \<Rightarrow> False
      | Some t \<Rightarrow> collides (properties t) = Some True)"

text \<open>
  The \<open>World\<close> tile, else the \<open>Below Player\<close> tile; \<open>tile.index\<close> on \<open>null\<close> raises a
  \<open>TypeError\<close>.
\<close>

definition getTileID :: "game \<Rightarrow> int \<Rightarrow> int \<Rightarrow> error + int" where
  "getTileID g x y =
     (let tile = getTileAt (tmap g) x y ''World'';
          tile = (if tile = None then getTileAt (tmap g) x y ''Below Player'' else tile)
      in case tile of
           None \<Rightarrow> Inl TypeError
         | Some t \<Rightarrow> Inr (index t))"

section \<open>create: the grid and the acceptable tiles\<close>

text \<open>
  The inner loop \<open>for (var x = 0; x < game.map.width; x++) col.push(game.getTileID(x, y))\<close>;
  an exception of \<open>getTileID\<close> leaves the loop.
\<close>

function create_col :: "game \<Rightarrow> nat \<Rightarrow> nat \<Rightarrow> int list \<Rightarrow> error + int list" where
  "create_col g y x col =
     (if x < width (tmap g)
      then (case getTileID g (int x) (int y) of
              Inl e \<Rightarrow> Inl e
            | Inr i \<Rightarrow> create_col g y (x + 1) (col @ [i]))
      else Inr col)"
  by pat_completeness auto
termination
  by (relation "measure (\<lambda>(g, y, x, col). width (tmap g) - x)") auto

declare create_col.simps [simp del]

text \<open>The outer loop \<open>for (var y = 0; y < game.map.height; y++) { ...; grid.push(col); }\<close>.\<close>

function create_grid :: "game \<Rightarrow> nat \<Rightarrow> int list list \<Rightarrow> error + int list list" where
  "create_grid g y rows =
     (if y < height (tmap g)
      then (case create_col g y 0 [] of
              Inl e \<Rightarrow> Inl e
            | Inr col \<Rightarrow> create_grid g (y + 1) (rows @ [col]))
      else Inr rows)"
  by pat_completeness auto
termination
  by (relation "measure (\<lambda>(g, y, rows). height (tmap g) - y)") auto

declare create_grid.simps [simp del]

text \<open>
  The loop \<open>for (var i = tileset2.firstgid - 1; i < tileset.total; i++)\<close> over the tile IDs,
  with the accept-list and the pathfinder as its state. \<open>!properties[i].collides\<close> and
  \<open>if (properties[i].cost)\<close> test JavaScript truthiness: \<open>undefined\<close>, \<open>false\<close> and \<open>0\<close> are
  falsy.
\<close>

function create_acceptable :: "tileset \<Rightarrow> int \<Rightarrow> int list \<times> easystar \<Rightarrow> int list \<times> easystar" where
  "create_acceptable ts i (acceptable, f) =
     (if i < total ts
      then (case tileProperties ts i of
              None \<Rightarrow> create_acceptable ts (i + 1) (acceptable @ [i + 1], f)
            | Some p \<Rightarrow>
                (let acceptable' = (if collides p \<noteq> Some True
                                    then acceptable @ [i + 1] else acceptable);
                     f' = (case cost p of
                             None \<Rightarrow> f
                           | Some c \<Rightarrow> if c \<noteq> 0 then setTileCost (i + 1) c f else f)
                 in create_acceptable ts (i + 1) (acceptable', f')))
      else (acceptable, f))"
  by pat_completeness auto
termination
  by (relation "measure (\<lambda>(ts, i, st). nat (total ts - i))") auto

declare create_acceptable.simps [simp del]

text \<open>
  The pathfinding part of \<open>create\<close>: a fresh pathfinder, the grid, the acceptable tiles.
\<close>

definition create_pathfinding :: "tileset \<Rightarrow> game \<Rightarrow> error + game" where
  "create_pathfinding ts g =
     (case create_grid g 0 [] of
        Inl e \<Rightarrow> Inl e
      | Inr rows \<Rightarrow>
          (let f = setGrid rows new_easystar;
               (acceptable, f') = create_acceptable ts (firstgid ts - 1) ([], f)
           in Inr (g\<lparr>finder := setAcceptableTiles acceptable f'\<rparr>)))"

section \<open>game.moveCharacter\<close>

text \<open>
  The loop \<open>for (var i = 0; i < path.length - 1; i++)\<close>, pushing one tween per iteration. The
  comparison is on integers: \<open>path.length - 1\<close> is \<open>-1\<close> for an empty path.
\<close>

function moveCharacter_loop :: "tilemap \<Rightarrow> cell list \<Rightarrow> nat \<Rightarrow> tween list \<Rightarrow> tween list" where
  "moveCharacter_loop m path i tweens =
     (if int i < int (length path) - 1
      then (let ex = fst (path ! (i + 1));
                ey = snd (path ! (i + 1))
            in moveCharacter_loop m path (i + 1)
                 (tweens @ [\<lparr>tween_x = \<lparr>val = ex * int (tileWidth m), duration = 200\<rparr>,
                             tween_y = \<lparr>val = ey * int (tileHeight m), duration = 200\<rparr>\<rparr>]))
      else tweens)"
  by pat_completeness auto
termination
  by (relation "measure (\<lambda>(m, path, i, tweens). length path - i)") auto

declare moveCharacter_loop.simps [simp del]

definition moveCharacter :: "cell list \<Rightarrow> game \<Rightarrow> game" where
  "moveCharacter path g =
     (let tweens = moveCharacter_loop (tmap g) path 0 []
      in g\<lparr>timelines := timelines g @ [tweens]\<rparr>)"

section \<open>game.changeTile and game.handleClick\<close>

text \<open>
  \<open>changeTile\<close> puts tile 2 at the marker; the \<open>console.log\<close> then reads \<open>tile.properties\<close>,
  which raises a \<open>TypeError\<close> when the put returned \<open>null\<close>.
\<close>

definition changeTile :: "game \<Rightarrow> error + game" where
  "changeTile g =
     (let (m', tile) = putTileAtWorldXY 2 (fst (marker g)) (snd (marker g)) (tmap g)
      in case tile of
           None \<Rightarrow> Inl TypeError
         | Some c \<Rightarrow>
             Inr (g\<lparr>tmap := setCollision c True m',
                    finder := avoidAdditionalPoint (worldToTileX m' (fst (marker g)))
                                (worldToTileY m' (snd (marker g))) (finder g)\<rparr>))"

text \<open>
  The callback that \<open>handleClick\<close> passes to \<open>findPath\<close>: a \<open>null\<close> path only draws a console
  warning, any other path goes to \<open>moveCharacter\<close>.
\<close>

definition pathCallback :: "cell list option \<Rightarrow> game \<Rightarrow> game" where
  "pathCallback path g =
     (case path of
        None \<Rightarrow> g
      | Some p \<Rightarrow> moveCharacter p g)"

text \<open>The start and goal cells that \<open>handleClick\<close> computes from the player and the pointer.\<close>

definition click_from :: "game \<Rightarrow> cell" where
  "click_from g = (fst (player g) div 32, snd (player g) div 32)"

definition click_to :: "cell \<Rightarrow> game \<Rightarrow> cell" where
  "click_to pointer g =
     (let x = fst (camera_scroll g) + fst pointer;
          y = snd (camera_scroll g) + snd pointer
      in (x div 32, y div 32))"

text \<open>
  \<open>handleClick\<close>. The search of the pathfinding library (\<open>findPath\<close> with the callback, then
  \<open>calculate\<close>) is the parameter \<open>pathSearch\<close>: from the pathfinder's state, the start and the
  goal it yields the value handed to the callback, \<open>null\<close> or a path. The search runs on
  the pathfinder's state as it is before \<open>changeTile\<close>, which follows in every case. The
  callback writes the timelines only and \<open>changeTile\<close> the map and the pathfinder only, so
  the resulting state is the same whether the library runs the callback within \<open>calculate\<close>
  or defers it.
\<close>

definition handleClick ::
  "(easystar \<Rightarrow> cell \<Rightarrow> cell \<Rightarrow> cell list option) \<Rightarrow> cell \<Rightarrow> game \<Rightarrow> error + game" where
  "handleClick pathSearch pointer g =
     (let (toX, toY) = click_to pointer g;
          (fromX, fromY) = click_from g;
          path = pathSearch (finder g) (fromX, fromY) (toX, toY);
          g' = pathCallback path g
      in changeTile g')"

section \<open>The path search\<close>

text \<open>
  Modelled from the spec: \<open>isWalkable\<close>, on the pathfinder's state. A cell is walkable when it
  lies in the grid, its tile ID is in the accept-list and it has not been marked blocked; a
  cell out of bounds is not walkable.
\<close>

definition isWalkable :: "easystar \<Rightarrow> cell \<Rightarrow> bool" where
  "isWalkable f c =
     (let (x, y) = c
      in 0 \<le> y \<and> nat y < length (grid f) \<and> 0 \<le> x \<and> nat x < length (grid f ! nat y) \<and>
         grid f ! nat y ! nat x \<in> set (acceptableTiles f) \<and> c \<notin> pointsToAvoid f)"

text \<open>
  Modelled from the spec: \<open>costOf\<close>, the traversal cost of a cell, that of its tile ID.
\<close>

definition costOf :: "easystar \<Rightarrow> cell \<Rightarrow> int" where
  "costOf f c = tileCost f (grid f ! nat (snd c) ! nat (fst c))"

text \<open>
  Modelled from the spec: the 4-connected neighbours of a cell, in the fixed order N, E, S, W.
\<close>

definition neighbours :: "cell \<Rightarrow> cell list" where
  "neighbours c = (let (x, y) = c in [(x, y - 1), (x + 1, y), (x, y + 1), (x - 1, y)])"

text \<open>
  An entry of the search frontier: the accumulated cost, the cell reached, and the cells
  before it, last first.
\<close>

type_synonym entry = "int \<times> cell \<times> cell list"

text \<open>
  Modelled from the spec: the tie-break policy. The frontier is kept ordered by cost; a new
  entry goes behind the entries of the same cost, so that among paths of equal cost the one
  discovered first is expanded first.
\<close>

fun insert_entry :: "entry \<Rightarrow> entry list \<Rightarrow> entry list" where
  "insert_entry e [] = [e]"
| "insert_entry e (x # xs) = (if fst e < fst x then e # x # xs else x # insert_entry e xs)"

text \<open>
  Modelled from the spec: the expansion of a cell. An edge into a neighbour exists only if
  the neighbour is walkable, and its weight is the neighbour's cost.
\<close>

definition expand :: "easystar \<Rightarrow> entry \<Rightarrow> cell list \<Rightarrow> entry list \<Rightarrow> entry list" where
  "expand f e visited frontier =
     (let (k, c, trail) = e
      in foldl (\<lambda>fr n. insert_entry (k + costOf f n, n, c # trail) fr) frontier
           (filter (\<lambda>n. isWalkable f n \<and> n \<notin> set visited) (neighbours c)))"

text \<open>
  Modelled from the spec: the uniform-cost (Dijkstra-style) search of \<open>findPath\<close>, which the
  pathfinding library performs (the library is not part of the source). The cheapest
  frontier entry is taken; a cell already expanded is skipped; the goal ends the search with
  its path; any other cell is expanded. An empty frontier means that no route exists. The
  search space is finite, bounded by the grid.
\<close>

function search :: "easystar \<Rightarrow> cell \<Rightarrow> entry list \<Rightarrow> cell list \<Rightarrow> cell list option" where
  "search f goal [] visited = None"
| "search f goal ((k, c, trail) # frontier) visited =
     (if c \<in> set visited \<or> \<not> isWalkable f c then search f goal frontier visited
      else if c = goal then Some (rev (c # trail))
      else search f goal (expand f (k, c, trail) (c # visited) frontier) (c # visited))"
  by pat_completeness auto
termination
proof (relation "measures [\<lambda>(f, goal, frontier, visited). card ({c. isWalkable f c} - set visited),
                           \<lambda>(f, goal, frontier, visited). length frontier]")
  show "wf (measures [\<lambda>(f, goal, frontier, visited). card ({c. isWalkable f c} - set visited),
                      \<lambda>(f, goal, frontier, visited). length frontier])"
    by simp
next
  fix f :: easystar and goal k c trail frontier visited
  show "((f, goal, frontier, visited), (f, goal, (k, c, trail) # frontier, visited))
         \<in> measures [\<lambda>(f, goal, frontier, visited). card ({c. isWalkable f c} - set visited),
                      \<lambda>(f, goal, frontier, visited). length frontier]"
    by simp
next
  fix f :: easystar and goal :: cell and k :: int and c :: cell and trail :: "cell list"
    and frontier :: "entry list" and visited :: "cell list"
  assume a: "\<not> (c \<in> set visited \<or> \<not> isWalkable f c)"
  define w where "w = Max (set (map length (grid f)))"
  have "{c. isWalkable f c} \<subseteq> {0..<int w} \<times> {0..<int (length (grid f))}"
  proof
    fix d assume "d \<in> {c. isWalkable f c}"
    then obtain x y where d: "d = (x, y)" and y: "0 \<le> y" "nat y < length (grid f)"
      and x: "0 \<le> x" "nat x < length (grid f ! nat y)"
      by (cases d) (auto simp: isWalkable_def)
    from y have "length (grid f ! nat y) \<in> set (map length (grid f))" by simp
    then have "length (grid f ! nat y) \<le> w" unfolding w_def by (intro Max_ge) auto
    with x y d show "d \<in> {0..<int w} \<times> {0..<int (length (grid f))}" by auto
  qed
  moreover have "finite ({0..<int w} \<times> {0..<int (length (grid f))})"
    by simp
  ultimately have "finite {c. isWalkable f c}"
    by (rule finite_subset)
  then have fin: "finite ({c. isWalkable f c} - set visited)"
    by (rule finite_Diff)
  from a have "c \<in> {c. isWalkable f c} - set visited" by simp
  with fin have "card ({c. isWalkable f c} - set visited - {c}) < card ({c. isWalkable f c} - set visited)"
    by (rule card_Diff1_less)
  moreover have "{c. isWalkable f c} - set (c # visited) = {c. isWalkable f c} - set visited - {c}"
    by auto
  ultimately have "card ({c. isWalkable f c} - set (c # visited)) < card ({c. isWalkable f c} - set visited)"
    by (simp only:)
  then show "((f, goal, expand f (k, c, trail) (c # visited) frontier, c # visited),
          (f, goal, (k, c, trail) # frontier, visited))
         \<in> measures [\<lambda>(f, goal, frontier, visited). card ({c. isWalkable f c} - set visited),
                      \<lambda>(f, goal, frontier, visited). length frontier]"
    by simp
qed

declare search.simps [simp del]

text \<open>
  Modelled from the spec: \<open>findPath\<close> followed by \<open>calculate\<close>, as the value handed to the
  callback. A start or goal that is out of bounds or not walkable gives \<open>NotFound\<close> (\<open>null\<close>);
  a request with start equal to goal gives the single-cell path.
\<close>

definition findPath :: "easystar \<Rightarrow> cell \<Rightarrow> cell \<Rightarrow> cell list option" where
  "findPath f start goal =
     (if isWalkable f start \<and> isWalkable f goal then search f goal [(0, start, [])] [] else None)"

text \<open>
  A route: a non-empty sequence of walkable cells in which consecutive cells are
  4-directionally adjacent.
\<close>

definition adjacent :: "cell \<Rightarrow> cell \<Rightarrow> bool" where
  "adjacent a b \<longleftrightarrow> \<bar>fst a - fst b\<bar> + \<bar>snd a - snd b\<bar> = 1"

fun is_route :: "easystar \<Rightarrow> cell list \<Rightarrow> bool" where
  "is_route f [] = False"
| "is_route f [c] = isWalkable f c"
| "is_route f (a # b # cs) = (isWalkable f a \<and> adjacent a b \<and> is_route f (b # cs))"

text \<open>
  Two invariants of the search. First: every frontier entry holds a route that leads from
  the start to the cell it has reached (kept last cell first).
\<close>

definition entry_ok :: "easystar \<Rightarrow> cell \<Rightarrow> entry \<Rightarrow> bool" where
  "entry_ok f start e \<longleftrightarrow>
     (case e of (k, c, trail) \<Rightarrow> is_route f (c # trail) \<and> last (c # trail) = start)"

text \<open>
  Second: the visited cells never include the goal, the walkable neighbours of a visited cell are
  visited or wait in the frontier, and so does the start.
\<close>

definition search_inv :: "easystar \<Rightarrow> cell \<Rightarrow> cell \<Rightarrow> entry list \<Rightarrow> cell list \<Rightarrow> bool" where
  "search_inv f start goal frontier visited \<longleftrightarrow>
     goal \<notin> set visited \<and>
     (\<forall>v \<in> set visited. \<forall>n. adjacent v n \<and> isWalkable f n \<longrightarrow>
        n \<in> set visited \<or> n \<in> (fst \<circ> snd) ` set frontier) \<and>
     (start \<in> set visited \<or> start \<in> (fst \<circ> snd) ` set frontier)"

section \<open>A small map\<close>

text \<open>
  A map of 3 by 2 tiles of 32 by 32 units. The \<open>Below Player\<close> layer has ground (index 1)
  everywhere; the \<open>World\<close> layer has a wall (index 5, \<open>collides\<close>) in the middle column and
  nothing elsewhere.
\<close>

definition ground :: tile where
  "ground = \<lparr>index = 1, properties = \<lparr>collides = None, cost = None\<rparr>, collision = False\<rparr>"

definition wall :: tile where
  "wall = \<lparr>index = 5, properties = \<lparr>collides = Some True, cost = None\<rparr>, collision = True\<rparr>"

definition example_map :: tilemap where
  "example_map =
     \<lparr>width = 3, height = 2, tileWidth = 32, tileHeight = 32,
      worldLayer = \<lparr>tiles = [(1, 0) \<mapsto> wall, (1, 1) \<mapsto> wall], collideIndexes = [5]\<rparr>,
      belowLayer = \<lparr>tiles = [(0, 0) \<mapsto> ground, (1, 0) \<mapsto> ground, (2, 0) \<mapsto> ground,
                               (0, 1) \<mapsto> ground, (1, 1) \<mapsto> ground, (2, 1) \<mapsto> ground],
                    collideIndexes = []\<rparr>\<rparr>"

text \<open>Its tileset: IDs 0 to 5; ID 4 (gid 5) collides, ID 2 (gid 3) costs 3.\<close>

definition example_tileset :: tileset where
  "example_tileset =
     \<lparr>firstgid = 1, total = 6,
      tileProperties = [4 \<mapsto> \<lparr>collides = Some True, cost = None\<rparr>,
                        2 \<mapsto> \<lparr>collides = None, cost = Some 3\<rparr>]\<rparr>"

text \<open>A tileset whose only tile declares the cost 0.\<close>

definition zero_cost_tileset :: tileset where
  "zero_cost_tileset =
     \<lparr>firstgid = 1, total = 1, tileProperties = [0 \<mapsto> \<lparr>collides = None, cost = Some 0\<rparr>]\<rparr>"

text \<open>The pathfinder that \<open>create\<close> sets up for this map and tileset.\<close>

definition example_finder :: easystar where
  "example_finder =
     \<lparr>grid = [[1, 5, 1], [1, 5, 1]], acceptableTiles = [1, 2, 3, 4, 6],
      costMap = [3 \<mapsto> 3], pointsToAvoid = {}\<rparr>"

text \<open>
  The game on this map: the player stands in cell \<open>(0, 0)\<close>, the marker is at cell \<open>(2, 1)\<close>.
\<close>

definition example_game :: game where
  "example_game =
     \<lparr>tmap = example_map, finder = example_finder, marker = (64, 32), camera_scroll = (0, 0),
      player = (16, 16), timelines = []\<rparr>"

section \<open>Properties\<close>

subsection \<open>moveCharacter\<close>

lemma moveCharacter_loop_eq:
  "moveCharacter_loop m path i tweens =
     tweens @ map (\<lambda>c. \<lparr>tween_x = \<lparr>val = fst c * int (tileWidth m), duration = 200\<rparr>,
                         tween_y = \<lparr>val = snd c * int (tileHeight m), duration = 200\<rparr>\<rparr>)
                (drop (i + 1) path)"
proof (induction m path i tweens rule: moveCharacter_loop.induct)
  case (1 m path i tweens)
  show ?case
  proof (cases "int i < int (length path) - 1")
    case True
    then have lt: "i + 1 < length path" by simp
    have "drop (i + 1) path = path ! (i + 1) # drop (i + 1 + 1) path"
      using lt by (simp add: Cons_nth_drop_Suc)
    with True 1 show ?thesis
      by (subst moveCharacter_loop.simps) (simp add: Let_def)
  next
    case False
    then show ?thesis
      by (subst moveCharacter_loop.simps) simp
  qed
qed

text \<open>
  C2. For a path of \<open>N \<ge> 1\<close> cells, \<open>moveCharacter\<close> hands the tween manager one timeline of
  exactly \<open>N - 1\<close> tweens, in path order and without the start cell: the \<open>i\<close>-th tween targets
  \<open>(path[i+1].x * tileWidth, path[i+1].y * tileHeight)\<close> with duration 200 on both axes. A
  single-cell path gives the empty sequence.
\<close>

theorem moveCharacter_waypoints:
  assumes "1 \<le> length path"
  shows "\<exists>tweens.
           timelines (moveCharacter path g) = timelines g @ [tweens] \<and>
           length tweens = length path - 1 \<and>
           (\<forall>i < length path - 1.
              tweens ! i =
                \<lparr>tween_x = \<lparr>val = fst (path ! (i + 1)) * int (tileWidth (tmap g)), duration = 200\<rparr>,
                 tween_y = \<lparr>val = snd (path ! (i + 1)) * int (tileHeight (tmap g)), duration = 200\<rparr>\<rparr>) \<and>
           (length path = 1 \<longrightarrow> tweens = [])"
proof -
  let ?tw = "\<lambda>c. \<lparr>tween_x = \<lparr>val = fst c * int (tileWidth (tmap g)), duration = 200\<rparr>,
                   tween_y = \<lparr>val = snd c * int (tileHeight (tmap g)), duration = 200\<rparr>\<rparr>"
  let ?tweens = "map ?tw (drop 1 path)"
  have "timelines (moveCharacter path g) = timelines g @ [?tweens]"
    by (simp add: moveCharacter_def Let_def moveCharacter_loop_eq)
  moreover have "length ?tweens = length path - 1" by simp
  moreover have "\<forall>i < length path - 1. ?tweens ! i = ?tw (path ! (i + 1))"
    by simp
  moreover have "length path = 1 \<longrightarrow> ?tweens = []" by simp
  ultimately show ?thesis by blast
qed

theorem moveCharacter_waypoints_witness:
  "1 \<le> length [(0, 0), (0, 1), (1, 1) :: cell] \<and>
   (\<exists>tweens.
      timelines (moveCharacter [(0, 0), (0, 1), (1, 1)] example_game) =
        timelines example_game @ [tweens] \<and>
      length tweens = 2 \<and>
      tweens ! 0 = \<lparr>tween_x = \<lparr>val = 0, duration = 200\<rparr>, tween_y = \<lparr>val = 32, duration = 200\<rparr>\<rparr> \<and>
      tweens ! 1 = \<lparr>tween_x = \<lparr>val = 32, duration = 200\<rparr>, tween_y = \<lparr>val = 32, duration = 200\<rparr>\<rparr>)"
proof -
  have h: "1 \<le> length [(0, 0), (0, 1), (1, 1) :: cell]" by simp
  from moveCharacter_waypoints [OF h, of example_game] obtain tweens where
    t: "timelines (moveCharacter [(0, 0), (0, 1), (1, 1)] example_game) =
          timelines example_game @ [tweens]"
    and l: "length tweens = length [(0, 0), (0, 1), (1, 1) :: cell] - 1"
    and a: "\<forall>i < length [(0, 0), (0, 1), (1, 1) :: cell] - 1.
              tweens ! i =
                \<lparr>tween_x = \<lparr>val = fst ([(0, 0), (0, 1), (1, 1) :: cell] ! (i + 1)) *
                                   int (tileWidth (tmap example_game)), duration = 200\<rparr>,
                 tween_y = \<lparr>val = snd ([(0, 0), (0, 1), (1, 1) :: cell] ! (i + 1)) *
                                   int (tileHeight (tmap example_game)), duration = 200\<rparr>\<rparr>"
    by blast
  from l have l2: "length tweens = 2" by simp
  from a [rule_format, of 0] have a0: "tweens ! 0 =
      \<lparr>tween_x = \<lparr>val = 0, duration = 200\<rparr>, tween_y = \<lparr>val = 32, duration = 200\<rparr>\<rparr>"
    by (simp add: example_game_def example_map_def)
  from a [rule_format, of 1] have a1: "tweens ! 1 =
      \<lparr>tween_x = \<lparr>val = 32, duration = 200\<rparr>, tween_y = \<lparr>val = 32, duration = 200\<rparr>\<rparr>"
    by (simp add: example_game_def example_map_def)
  from h t l2 a0 a1 show ?thesis by blast
qed

subsection \<open>getTileID and the grid\<close>

lemma create_col_Inr:
  "create_col g y x col = Inr r \<Longrightarrow> x \<le> width (tmap g) \<Longrightarrow>
     length r = length col + (width (tmap g) - x) \<and>
     take (length col) r = col \<and>
     (\<forall>x'. x \<le> x' \<and> x' < width (tmap g) \<longrightarrow>
        getTileID g (int x') (int y) = Inr (r ! (length col + (x' - x))))"
proof (induction g y x col rule: create_col.induct)
  case (1 g y x col)
  show ?case
  proof (cases "x < width (tmap g)")
    case False
    with "1.prems" show ?thesis
      by (subst (asm) create_col.simps) auto
  next
    case True
    then obtain i where i: "getTileID g (int x) (int y) = Inr i"
      and rec: "create_col g y (x + 1) (col @ [i]) = Inr r"
      using "1.prems"(1) by (subst (asm) create_col.simps) (auto split: sum.splits)
    from "1.IH"[OF True i rec] True
    have len: "length r = length (col @ [i]) + (width (tmap g) - (x + 1))"
      and tk: "take (length (col @ [i])) r = col @ [i]"
      and rest: "\<forall>x'. x + 1 \<le> x' \<and> x' < width (tmap g) \<longrightarrow>
        getTileID g (int x') (int y) = Inr (r ! (length (col @ [i]) + (x' - (x + 1))))"
      by auto
    from len True have L: "length r = length col + (width (tmap g) - x)" by simp
    from tk have "take (length col) (take (length (col @ [i])) r) = take (length col) (col @ [i])"
      by simp
    then have T: "take (length col) r = col" by (simp add: min_def)
    from tk have "take (length (col @ [i])) r ! length col = (col @ [i]) ! length col" by simp
    then have here: "r ! length col = i" by simp
    have "getTileID g (int x') (int y) = Inr (r ! (length col + (x' - x)))"
      if "x \<le> x'" "x' < width (tmap g)" for x'
    proof (cases "x' = x")
      case True
      with i here show ?thesis by simp
    next
      case False
      with that have "x + 1 \<le> x'" by simp
      with rest that have "getTileID g (int x') (int y) = Inr (r ! (length (col @ [i]) + (x' - (x + 1))))"
        by blast
      moreover have "length (col @ [i]) + (x' - (x + 1)) = length col + (x' - x)"
        using \<open>x + 1 \<le> x'\<close> by simp
      ultimately show ?thesis by (simp only:)
    qed
    with L T show ?thesis by blast
  qed
qed

lemma create_col_total:
  "(\<forall>x'. x \<le> x' \<and> x' < width (tmap g) \<longrightarrow> (\<exists>i. getTileID g (int x') (int y) = Inr i)) \<Longrightarrow>
   \<exists>r. create_col g y x col = Inr r"
proof (induction g y x col rule: create_col.induct)
  case (1 g y x col)
  show ?case
  proof (cases "x < width (tmap g)")
    case False
    then show ?thesis by (subst create_col.simps) simp
  next
    case True
    with "1.prems" obtain i where i: "getTileID g (int x) (int y) = Inr i" by blast
    have "\<exists>r. create_col g y (x + 1) (col @ [i]) = Inr r"
      using "1.IH"[OF True i] "1.prems" by simp
    with True i show ?thesis by (subst create_col.simps) simp
  qed
qed

lemma create_grid_Inr:
  "create_grid g y rows = Inr r \<Longrightarrow> y \<le> height (tmap g) \<Longrightarrow>
     length r = length rows + (height (tmap g) - y) \<and>
     take (length rows) r = rows \<and>
     (\<forall>y'. y \<le> y' \<and> y' < height (tmap g) \<longrightarrow>
        create_col g y' 0 [] = Inr (r ! (length rows + (y' - y))))"
proof (induction g y rows rule: create_grid.induct)
  case (1 g y rows)
  show ?case
  proof (cases "y < height (tmap g)")
    case False
    with "1.prems" show ?thesis
      by (subst (asm) create_grid.simps) auto
  next
    case True
    then obtain c where c: "create_col g y 0 [] = Inr c"
      and rec: "create_grid g (y + 1) (rows @ [c]) = Inr r"
      using "1.prems"(1) by (subst (asm) create_grid.simps) (auto split: sum.splits)
    from "1.IH"[OF True c rec] True
    have len: "length r = length (rows @ [c]) + (height (tmap g) - (y + 1))"
      and tk: "take (length (rows @ [c])) r = rows @ [c]"
      and rest: "\<forall>y'. y + 1 \<le> y' \<and> y' < height (tmap g) \<longrightarrow>
        create_col g y' 0 [] = Inr (r ! (length (rows @ [c]) + (y' - (y + 1))))"
      by auto
    from len True have L: "length r = length rows + (height (tmap g) - y)" by simp
    from tk have "take (length rows) (take (length (rows @ [c])) r) = take (length rows) (rows @ [c])"
      by simp
    then have T: "take (length rows) r = rows" by (simp add: min_def)
    from tk have "take (length (rows @ [c])) r ! length rows = (rows @ [c]) ! length rows" by simp
    then have here: "r ! length rows = c" by simp
    have "create_col g y' 0 [] = Inr (r ! (length rows + (y' - y)))"
      if "y \<le> y'" "y' < height (tmap g)" for y'
    proof (cases "y' = y")
      case True
      with c here show ?thesis by simp
    next
      case False
      with that have "y + 1 \<le> y'" by simp
      with rest that have "create_col g y' 0 [] = Inr (r ! (length (rows @ [c]) + (y' - (y + 1))))"
        by blast
      moreover have "length (rows @ [c]) + (y' - (y + 1)) = length rows + (y' - y)"
        using \<open>y + 1 \<le> y'\<close> by simp
      ultimately show ?thesis by (simp only:)
    qed
    with L T show ?thesis by blast
  qed
qed

lemma create_grid_total:
  "(\<forall>y'. y \<le> y' \<and> y' < height (tmap g) \<longrightarrow> (\<exists>c. create_col g y' 0 [] = Inr c)) \<Longrightarrow>
   \<exists>r. create_grid g y rows = Inr r"
proof (induction g y rows rule: create_grid.induct)
  case (1 g y rows)
  show ?case
  proof (cases "y < height (tmap g)")
    case False
    then show ?thesis by (subst create_grid.simps) simp
  next
    case True
    with "1.prems" obtain c where c: "create_col g y 0 [] = Inr c" by blast
    have "\<exists>r. create_grid g (y + 1) (rows @ [c]) = Inr r"
      using "1.IH"[OF True c] "1.prems" by simp
    with True c show ?thesis by (subst create_grid.simps) simp
  qed
qed

lemma create_grid_shape:
  assumes "create_grid g 0 [] = Inr rows"
  shows "length rows = height (tmap g)"
    and "y < height (tmap g) \<Longrightarrow> length (rows ! y) = width (tmap g)"
    and "y < height (tmap g) \<Longrightarrow> x < width (tmap g) \<Longrightarrow>
           getTileID g (int x) (int y) = Inr (rows ! y ! x)"
proof -
  from create_grid_Inr[OF assms] have len: "length rows = height (tmap g)"
    and cols: "\<forall>y'. y' < height (tmap g) \<longrightarrow> create_col g y' 0 [] = Inr (rows ! y')"
    by auto
  show "length rows = height (tmap g)" by (rule len)
  {
    assume "y < height (tmap g)"
    with cols have c: "create_col g y 0 [] = Inr (rows ! y)" by blast
    from create_col_Inr[OF c] show "length (rows ! y) = width (tmap g)" by simp
    assume "x < width (tmap g)"
    with create_col_Inr[OF c] show "getTileID g (int x) (int y) = Inr (rows ! y ! x)" by simp
  }
qed

lemma create_grid_completes_iff:
  "(\<exists>rows. create_grid g 0 [] = Inr rows) \<longleftrightarrow>
   (\<forall>x y. x < width (tmap g) \<and> y < height (tmap g) \<longrightarrow> (\<exists>i. getTileID g (int x) (int y) = Inr i))"
proof
  assume "\<exists>rows. create_grid g 0 [] = Inr rows"
  then obtain rows where "create_grid g 0 [] = Inr rows" ..
  from create_grid_shape(3)[OF this] show "\<forall>x y. x < width (tmap g) \<and> y < height (tmap g) \<longrightarrow>
      (\<exists>i. getTileID g (int x) (int y) = Inr i)" by blast
next
  assume all: "\<forall>x y. x < width (tmap g) \<and> y < height (tmap g) \<longrightarrow>
      (\<exists>i. getTileID g (int x) (int y) = Inr i)"
  have "\<exists>c. create_col g y 0 [] = Inr c" if "y < height (tmap g)" for y
    using all that by (intro create_col_total) blast
  then show "\<exists>rows. create_grid g 0 [] = Inr rows"
    by (intro create_grid_total) blast
qed

lemma getTileID_Inr_iff:
  "getTileID g x y = Inr i \<longleftrightarrow>
     (\<exists>t. (getTileAt (tmap g) x y ''World'' = Some t \<or>
           getTileAt (tmap g) x y ''World'' = None \<and>
           getTileAt (tmap g) x y ''Below Player'' = Some t) \<and> i = index t)"
  by (auto simp: getTileID_def Let_def split: option.splits)

lemma getTileID_Inl_iff:
  "getTileID g x y = Inl e \<longleftrightarrow>
     getTileAt (tmap g) x y ''World'' = None \<and> getTileAt (tmap g) x y ''Below Player'' = None"
  by (cases e) (auto simp: getTileID_def Let_def split: option.splits)

lemma getTileAt_out_of_bounds:
  "\<not> inLayerBounds m x y \<Longrightarrow> getTileAt m x y name = None"
  by (simp add: getTileAt_def split: option.splits)

lemma create_acceptable_grid:
  "grid (snd (create_acceptable ts i st)) = grid (snd st)"
proof (induction ts i st rule: create_acceptable.induct)
  case (1 ts i acceptable f)
  show ?case
  proof (cases "i < total ts")
    case False
    then show ?thesis by (subst create_acceptable.simps) simp
  next
    case True
    show ?thesis
    proof (cases "tileProperties ts i")
      case None
      with True "1.IH"(1) show ?thesis by (subst create_acceptable.simps) simp
    next
      case (Some p)
      with True "1.IH"(2)[OF True Some refl refl] show ?thesis
        by (subst create_acceptable.simps)
           (simp add: Let_def setTileCost_def split: option.splits)
    qed
  qed
qed

text \<open>
  C9. \<open>getTileID\<close> returns the index of the \<open>World\<close> tile when there is one, otherwise the
  index of the \<open>Below Player\<close> tile; where neither layer has a tile, which includes every cell
  out of bounds, it raises a \<open>TypeError\<close>. So the grid-building loop of \<open>create\<close> completes only
  if every cell of the map has a tile on one of the two layers.
\<close>

theorem getTileID_world_else_below:
  "(\<forall>t. getTileAt (tmap g) x y ''World'' = Some t \<longrightarrow> getTileID g x y = Inr (index t)) \<and>
   (\<forall>t. getTileAt (tmap g) x y ''World'' = None \<and>
        getTileAt (tmap g) x y ''Below Player'' = Some t \<longrightarrow> getTileID g x y = Inr (index t)) \<and>
   (getTileAt (tmap g) x y ''World'' = None \<and> getTileAt (tmap g) x y ''Below Player'' = None
      \<longrightarrow> getTileID g x y = Inl TypeError) \<and>
   (\<not> inLayerBounds (tmap g) x y \<longrightarrow> getTileID g x y = Inl TypeError) \<and>
   ((\<exists>rows. create_grid g 0 [] = Inr rows) \<longrightarrow>
      (\<forall>x' y'. x' < width (tmap g) \<and> y' < height (tmap g) \<longrightarrow>
         getTileAt (tmap g) (int x') (int y') ''World'' \<noteq> None \<or>
         getTileAt (tmap g) (int x') (int y') ''Below Player'' \<noteq> None))"
proof (intro conjI allI impI)
  fix t assume "getTileAt (tmap g) x y ''World'' = Some t"
  then show "getTileID g x y = Inr (index t)" by (simp add: getTileID_def)
next
  fix t assume "getTileAt (tmap g) x y ''World'' = None \<and>
        getTileAt (tmap g) x y ''Below Player'' = Some t"
  then show "getTileID g x y = Inr (index t)" by (simp add: getTileID_def)
next
  assume "getTileAt (tmap g) x y ''World'' = None \<and> getTileAt (tmap g) x y ''Below Player'' = None"
  then show "getTileID g x y = Inl TypeError" by (simp add: getTileID_def)
next
  assume "\<not> inLayerBounds (tmap g) x y"
  then show "getTileID g x y = Inl TypeError"
    by (simp add: getTileID_def getTileAt_out_of_bounds)
next
  fix x' y'
  assume "\<exists>rows. create_grid g 0 [] = Inr rows" and "x' < width (tmap g) \<and> y' < height (tmap g)"
  then obtain i where "getTileID g (int x') (int y') = Inr i"
    using create_grid_completes_iff[of g] by blast
  then show "getTileAt (tmap g) (int x') (int y') ''World'' \<noteq> None \<or>
         getTileAt (tmap g) (int x') (int y') ''Below Player'' \<noteq> None"
    by (auto simp: getTileID_Inr_iff)
qed

lemma example_create_grid: "create_grid example_game 0 [] = Inr [[1, 5, 1], [1, 5, 1]]"
  by (simp add: create_grid.simps create_col.simps getTileID_def getTileAt_def getLayer_def
      inLayerBounds_def example_game_def example_map_def ground_def wall_def)

theorem getTileID_world_else_below_witness:
  "getTileAt (tmap example_game) 1 0 ''World'' = Some wall \<and>
   getTileID example_game 1 0 = Inr 5 \<and>
   getTileAt (tmap example_game) 0 0 ''World'' = None \<and>
   getTileAt (tmap example_game) 0 0 ''Below Player'' = Some ground \<and>
   getTileID example_game 0 0 = Inr 1 \<and>
   \<not> inLayerBounds (tmap example_game) 3 0 \<and>
   getTileID example_game 3 0 = Inl TypeError \<and>
   (\<exists>rows. create_grid example_game 0 [] = Inr rows) \<and>
   getTileAt (tmap example_game) 2 1 ''Below Player'' \<noteq> None"
proof -
  have w: "getTileAt (tmap example_game) 1 0 ''World'' = Some wall"
    by (simp add: getTileAt_def getLayer_def inLayerBounds_def example_game_def example_map_def)
  have b: "getTileAt (tmap example_game) 0 0 ''World'' = None \<and>
           getTileAt (tmap example_game) 0 0 ''Below Player'' = Some ground"
    by (simp add: getTileAt_def getLayer_def inLayerBounds_def example_game_def example_map_def)
  have o: "\<not> inLayerBounds (tmap example_game) 3 0"
    by (simp add: inLayerBounds_def example_game_def example_map_def)
  have c: "\<exists>rows. create_grid example_game 0 [] = Inr rows"
    using example_create_grid by blast
  have n: "getTileAt (tmap example_game) 2 1 ''World'' = None"
    by (simp add: getTileAt_def getLayer_def inLayerBounds_def example_game_def example_map_def)
  have d: "(2 :: nat) < width (tmap example_game) \<and> (1 :: nat) < height (tmap example_game)"
    by (simp add: example_game_def example_map_def)
  from getTileID_world_else_below [of example_game 1 0] w
  have 1: "getTileID example_game 1 0 = Inr 5" by (simp add: wall_def)
  from getTileID_world_else_below [of example_game 0 0] b
  have 2: "getTileID example_game 0 0 = Inr 1" by (simp add: ground_def)
  from getTileID_world_else_below [of example_game 3 0] o
  have 3: "getTileID example_game 3 0 = Inl TypeError" by blast
  from getTileID_world_else_below [of example_game 0 0] c d
  have "getTileAt (tmap example_game) (int 2) (int 1) ''World'' \<noteq> None \<or>
        getTileAt (tmap example_game) (int 2) (int 1) ''Below Player'' \<noteq> None"
    by blast
  with n have 4: "getTileAt (tmap example_game) 2 1 ''Below Player'' \<noteq> None" by simp
  from w b o c 1 2 3 4 show ?thesis by blast
qed

text \<open>
  C4. The grid that \<open>create\<close> registers is rectangular, with exactly \<open>map.height\<close> rows of exactly
  \<open>map.width\<close> entries, and entry \<open>[y][x]\<close> is the index of the \<open>World\<close> tile at cell \<open>(x, y)\<close>,
  or of the \<open>Below Player\<close> tile where the \<open>World\<close> layer has none.
\<close>

theorem create_grid_rectangular:
  assumes "create_pathfinding ts g = Inr g'"
  shows "length (grid (finder g')) = height (tmap g) \<and>
         (\<forall>y < height (tmap g).
            length (grid (finder g') ! y) = width (tmap g) \<and>
            (\<forall>x < width (tmap g).
               \<exists>t. (getTileAt (tmap g) (int x) (int y) ''World'' = Some t \<or>
                     getTileAt (tmap g) (int x) (int y) ''World'' = None \<and>
                     getTileAt (tmap g) (int x) (int y) ''Below Player'' = Some t) \<and>
                    grid (finder g') ! y ! x = index t))"
proof -
  from assms obtain rows where rows: "create_grid g 0 [] = Inr rows"
    by (auto simp: create_pathfinding_def split: sum.splits)
  with assms have "grid (finder g') =
      grid (snd (create_acceptable ts (firstgid ts - 1) ([], setGrid rows new_easystar)))"
    by (auto simp: create_pathfinding_def Let_def setAcceptableTiles_def split: prod.splits)
  then have g': "grid (finder g') = rows"
    by (simp add: create_acceptable_grid setGrid_def)
  have "length rows = height (tmap g)" by (rule create_grid_shape(1)[OF rows])
  moreover have "length (rows ! y) = width (tmap g)" if "y < height (tmap g)" for y
    using that by (rule create_grid_shape(2)[OF rows])
  moreover have "\<exists>t. (getTileAt (tmap g) (int x) (int y) ''World'' = Some t \<or>
                     getTileAt (tmap g) (int x) (int y) ''World'' = None \<and>
                     getTileAt (tmap g) (int x) (int y) ''Below Player'' = Some t) \<and>
                    rows ! y ! x = index t"
    if "y < height (tmap g)" "x < width (tmap g)" for x y
    using create_grid_shape(3)[OF rows that] by (simp add: getTileID_Inr_iff)
  ultimately show ?thesis unfolding g' by blast
qed

theorem create_grid_rectangular_witness:
  "create_pathfinding example_tileset example_game = Inr example_game \<and>
   length (grid (finder example_game)) = 2 \<and>
   length (grid (finder example_game) ! 1) = 3 \<and>
   getTileAt (tmap example_game) 1 1 ''World'' = Some wall \<and>
   grid (finder example_game) ! 1 ! 1 = index wall \<and>
   getTileAt (tmap example_game) 2 1 ''World'' = None \<and>
   getTileAt (tmap example_game) 2 1 ''Below Player'' = Some ground \<and>
   grid (finder example_game) ! 1 ! 2 = index ground"
proof -
  have acc: "create_acceptable example_tileset 0 ([], setGrid [[1, 5, 1], [1, 5, 1]] new_easystar) =
      ([1, 2, 3, 4, 6],
       \<lparr>grid = [[1, 5, 1], [1, 5, 1]], acceptableTiles = [], costMap = [3 \<mapsto> 3],
        pointsToAvoid = {}\<rparr>)"
    by (simp add: create_acceptable.simps example_tileset_def setGrid_def setTileCost_def
        new_easystar_def)
  have fg: "firstgid example_tileset - 1 = 0"
    by (simp add: example_tileset_def)
  have h: "create_pathfinding example_tileset example_game = Inr example_game"
    unfolding create_pathfinding_def example_create_grid fg
    by (simp add: acc) (simp add: setAcceptableTiles_def example_game_def example_finder_def)
  have w: "getTileAt (tmap example_game) 1 1 ''World'' = Some wall"
    by (simp add: getTileAt_def getLayer_def inLayerBounds_def example_game_def example_map_def)
  have b: "getTileAt (tmap example_game) 2 1 ''World'' = None \<and>
           getTileAt (tmap example_game) 2 1 ''Below Player'' = Some ground"
    by (simp add: getTileAt_def getLayer_def inLayerBounds_def example_game_def example_map_def)
  have d: "(1 :: nat) < height (tmap example_game)" "(1 :: nat) < width (tmap example_game)"
    "(2 :: nat) < width (tmap example_game)"
    by (simp_all add: example_game_def example_map_def)
  from create_grid_rectangular [OF h]
  have len: "length (grid (finder example_game)) = height (tmap example_game)"
    and rows: "\<forall>y < height (tmap example_game).
            length (grid (finder example_game) ! y) = width (tmap example_game) \<and>
            (\<forall>x < width (tmap example_game).
               \<exists>t. (getTileAt (tmap example_game) (int x) (int y) ''World'' = Some t \<or>
                     getTileAt (tmap example_game) (int x) (int y) ''World'' = None \<and>
                     getTileAt (tmap example_game) (int x) (int y) ''Below Player'' = Some t) \<and>
                    grid (finder example_game) ! y ! x = index t)"
    by blast+
  from len have 1: "length (grid (finder example_game)) = 2"
    by (simp add: example_game_def example_map_def)
  from rows d(1) have 2: "length (grid (finder example_game) ! 1) = 3"
    by (simp add: example_game_def example_map_def)
  from rows d(1) d(2) have "\<exists>t. (getTileAt (tmap example_game) (int 1) (int 1) ''World'' = Some t \<or>
                     getTileAt (tmap example_game) (int 1) (int 1) ''World'' = None \<and>
                     getTileAt (tmap example_game) (int 1) (int 1) ''Below Player'' = Some t) \<and>
                    grid (finder example_game) ! 1 ! 1 = index t"
    by blast
  with w have 3: "grid (finder example_game) ! 1 ! 1 = index wall" by simp
  from rows d(1) d(3) have "\<exists>t. (getTileAt (tmap example_game) (int 2) (int 1) ''World'' = Some t \<or>
                     getTileAt (tmap example_game) (int 2) (int 1) ''World'' = None \<and>
                     getTileAt (tmap example_game) (int 2) (int 1) ''Below Player'' = Some t) \<and>
                    grid (finder example_game) ! 1 ! 2 = index t"
    by blast
  with b have 4: "grid (finder example_game) ! 1 ! 2 = index ground" by simp
  from h 1 2 w 3 b 4 show ?thesis by blast
qed

text \<open>
  C5, as the program has it. For every cell outside the map, \<open>checkCollision\<close> returns
  \<open>false\<close>: the query finds no tile there, and the \<open>null\<close> guard reports no collision.
\<close>

theorem checkCollision_out_of_bounds:
  assumes "\<not> inLayerBounds (tmap g) x y"
  shows "checkCollision g x y = False"
  using assms by (simp add: checkCollision_def getTileAt_out_of_bounds)

theorem checkCollision_out_of_bounds_witness:
  "\<not> inLayerBounds (tmap example_game) (- 1) 0 \<and> checkCollision example_game (- 1) 0 = False"
proof -
  have h: "\<not> inLayerBounds (tmap example_game) (- 1) 0"
    by (simp add: inLayerBounds_def)
  from h checkCollision_out_of_bounds [OF h] show ?thesis by blast
qed

text \<open>
  The cell \<open>(7, 7)\<close> lies outside the 3 by 2 map, and \<open>checkCollision\<close> does not report a
  collision there.
\<close>

theorem checkCollision_out_of_bounds_counterexample:
  "\<not> inLayerBounds (tmap example_game) 7 7 \<and> \<not> checkCollision example_game 7 7"
  by (simp add: checkCollision_def getTileAt_def getLayer_def inLayerBounds_def
      example_game_def example_map_def)

subsection \<open>The acceptable tiles and the tile costs\<close>

lemma create_acceptable_set:
  "set (fst (create_acceptable ts i (acceptable, f))) =
     set acceptable \<union>
     {j + 1 | j. i \<le> j \<and> j < total ts \<and>
                 (case tileProperties ts j of None \<Rightarrow> True | Some p \<Rightarrow> collides p \<noteq> Some True)}"
proof (induction ts i "(acceptable, f)" arbitrary: acceptable f rule: create_acceptable.induct)
  case (1 ts i acceptable f)
  show ?case
  proof (cases "i < total ts")
    case False
    then show ?thesis by (subst create_acceptable.simps) auto
  next
    case True
    have split: "{j + 1 | j. i \<le> j \<and> j < total ts \<and> P j} =
        (if P i then {i + 1} else {}) \<union> {j + 1 | j. i + 1 \<le> j \<and> j < total ts \<and> P j}" for P
      using True by (auto simp: order_le_less)
    show ?thesis
    proof (cases "tileProperties ts i")
      case None
      from "1.hyps"(1)[OF True None] True None show ?thesis
        by (subst create_acceptable.simps, subst split) auto
    next
      case (Some p)
      from "1.hyps"(2)[OF True Some refl refl] True Some show ?thesis
        by (subst create_acceptable.simps, subst split) (auto simp: Let_def)
    qed
  qed
qed

lemma create_acceptable_costMap:
  "costMap (snd (create_acceptable ts i (acceptable, f))) t =
     (if i \<le> t - 1 \<and> t - 1 < total ts
      then (case tileProperties ts (t - 1) of
              None \<Rightarrow> costMap f t
            | Some p \<Rightarrow>
                (case cost p of
                   None \<Rightarrow> costMap f t
                 | Some c \<Rightarrow> if c \<noteq> 0 then Some c else costMap f t))
      else costMap f t)"
proof (induction ts i "(acceptable, f)" arbitrary: acceptable f rule: create_acceptable.induct)
  case (1 ts i acceptable f)
  show ?case
  proof (cases "i < total ts")
    case False
    then show ?thesis by (subst create_acceptable.simps) auto
  next
    case True
    have here: "t - 1 = i \<longleftrightarrow> t = i + 1" by auto
    show ?thesis
    proof (cases "tileProperties ts i")
      case None
      show ?thesis
      proof (cases "t = i + 1")
        case t: True
        from "1.hyps"(1)[OF True None] True None t show ?thesis
          by (subst create_acceptable.simps) simp
      next
        case t: False
        then have "i \<le> t - 1 \<longleftrightarrow> i + 1 \<le> t - 1" by auto
        with "1.hyps"(1)[OF True None] True None show ?thesis
          by (subst create_acceptable.simps) simp
      qed
    next
      case (Some p)
      show ?thesis
      proof (cases "t = i + 1")
        case t: True
        from "1.hyps"(2)[OF True Some refl refl] True Some t show ?thesis
          by (subst create_acceptable.simps)
             (simp add: Let_def setTileCost_def split: option.splits)
      next
        case t: False
        then have "i \<le> t - 1 \<longleftrightarrow> i + 1 \<le> t - 1" by auto
        with "1.hyps"(2)[OF True Some refl refl] True Some t show ?thesis
          by (subst create_acceptable.simps)
             (simp add: Let_def setTileCost_def split: option.splits)
      qed
    qed
  qed
qed

text \<open>
  For every tile ID in the loop's range, gid \<open>i + 1\<close> is in the accept-list exactly when the
  property table has no entry for \<open>i\<close> or the entry's \<open>collides\<close> is not true.
\<close>

lemma create_acceptable_walkable_iff:
  assumes "firstgid ts - 1 \<le> i" "i < total ts"
  shows "i + 1 \<in> set (fst (create_acceptable ts (firstgid ts - 1) ([], f))) \<longleftrightarrow>
           (tileProperties ts i = None \<or>
            (\<exists>p. tileProperties ts i = Some p \<and> collides p \<noteq> Some True))"
  using assms by (auto simp: create_acceptable_set split: option.splits)

text \<open>
  A declared cost other than 0 is registered for gid \<open>i + 1\<close>; a tile without a declared cost
  keeps the cost it had, the default in a fresh pathfinder.
\<close>

lemma create_acceptable_cost_registered:
  assumes "firstgid ts - 1 \<le> i" "i < total ts"
  shows "(\<forall>p c. tileProperties ts i = Some p \<and> cost p = Some c \<and> c \<noteq> 0 \<longrightarrow>
            costMap (snd (create_acceptable ts (firstgid ts - 1) ([], f))) (i + 1) = Some c) \<and>
         ((tileProperties ts i = None \<or> (\<exists>p. tileProperties ts i = Some p \<and> cost p = None)) \<longrightarrow>
            costMap (snd (create_acceptable ts (firstgid ts - 1) ([], f))) (i + 1) = costMap f (i + 1))"
  using assms by (auto simp: create_acceptable_costMap)

text \<open>
  C3, at a tileset whose tile 0 declares the cost 0. The truthiness test \<open>if (properties[i].cost)\<close>
  skips the registration: no cost is registered for gid 1, which keeps the default cost,
  although the entry declares one.
\<close>

theorem create_acceptable_zero_cost:
  "tileProperties zero_cost_tileset 0 = Some \<lparr>collides = None, cost = Some 0\<rparr> \<and>
   costMap (snd (create_acceptable zero_cost_tileset (firstgid zero_cost_tileset - 1)
                   ([], new_easystar))) 1 = None \<and>
   tileCost (snd (create_acceptable zero_cost_tileset (firstgid zero_cost_tileset - 1)
                    ([], new_easystar))) 1 = defaultCost"
  by (simp add: create_acceptable.simps zero_cost_tileset_def new_easystar_def tileCost_def)

subsection \<open>changeTile\<close>

text \<open>The cell under the marker, as \<open>changeTile\<close> computes it.\<close>

lemma changeTile_out_of_bounds:
  assumes "\<not> inLayerBounds (tmap g) (worldToTileX (tmap g) (fst (marker g)))
                                   (worldToTileY (tmap g) (snd (marker g)))"
  shows "changeTile g = Inl TypeError"
  using assms by (simp add: changeTile_def putTileAtWorldXY_def Let_def)

lemma changeTile_in_bounds:
  assumes "inLayerBounds (tmap g) (worldToTileX (tmap g) (fst (marker g)))
                                (worldToTileY (tmap g) (snd (marker g)))"
  shows "changeTile g =
    Inr (g\<lparr>tmap := (tmap g)\<lparr>worldLayer := (worldLayer (tmap g))
               \<lparr>tiles := (tiles (worldLayer (tmap g)))
                  ((worldToTileX (tmap g) (fst (marker g)), worldToTileY (tmap g) (snd (marker g))) \<mapsto>
                   (case tiles (worldLayer (tmap g))
                           (worldToTileX (tmap g) (fst (marker g)),
                            worldToTileY (tmap g) (snd (marker g))) of
                      None \<Rightarrow> \<lparr>index = 2, properties = \<lparr>collides = None, cost = None\<rparr>,
                               collision = True\<rparr>
                    | Some t \<Rightarrow> t\<lparr>index := 2, collision := True\<rparr>))\<rparr>\<rparr>,
           finder := (finder g)\<lparr>pointsToAvoid :=
                        insert (worldToTileX (tmap g) (fst (marker g)),
                                worldToTileY (tmap g) (snd (marker g)))
                          (pointsToAvoid (finder g))\<rparr>\<rparr>)"
  using assms
  by (simp add: changeTile_def putTileAtWorldXY_def Let_def setCollision_def
      avoidAdditionalPoint_def worldToTileX_def worldToTileY_def split: option.splits)

text \<open>
  C6, as the program has it. With the marker over a cell outside the layer, \<open>changeTile\<close> is
  not a silent no-op: the put returns \<open>null\<close> and reading \<open>tile.properties\<close> raises a
  \<open>TypeError\<close>. With the marker over a cell of the layer, \<open>changeTile\<close> adds exactly that
  cell to the pathfinder's points to avoid and leaves every other tile and every other
  registration as it was, and a second call leaves the map and the pathfinder as the first
  call left them.
\<close>

theorem changeTile_marks_cell:
  assumes "0 < tileWidth (tmap g)" and "0 < tileHeight (tmap g)"
    and "c = (worldToTileX (tmap g) (fst (marker g)), worldToTileY (tmap g) (snd (marker g)))"
  shows "(\<not> inLayerBounds (tmap g) (fst c) (snd c) \<longrightarrow> changeTile g = Inl TypeError) \<and>
         (inLayerBounds (tmap g) (fst c) (snd c) \<longrightarrow>
            (\<exists>g1. changeTile g = Inr g1 \<and>
                  pointsToAvoid (finder g1) = insert c (pointsToAvoid (finder g)) \<and>
                  grid (finder g1) = grid (finder g) \<and>
                  acceptableTiles (finder g1) = acceptableTiles (finder g) \<and>
                  costMap (finder g1) = costMap (finder g) \<and>
                  (\<forall>c'. c' \<noteq> c \<longrightarrow>
                     tiles (worldLayer (tmap g1)) c' = tiles (worldLayer (tmap g)) c') \<and>
                  (\<exists>g2. changeTile g1 = Inr g2 \<and> tmap g2 = tmap g1 \<and> finder g2 = finder g1)))"
proof (intro conjI impI)
  assume "\<not> inLayerBounds (tmap g) (fst c) (snd c)"
  with assms(3) show "changeTile g = Inl TypeError"
    by (simp add: changeTile_out_of_bounds)
next
  assume inb: "inLayerBounds (tmap g) (fst c) (snd c)"
  with assms(3) have inb': "inLayerBounds (tmap g) (worldToTileX (tmap g) (fst (marker g)))
                                (worldToTileY (tmap g) (snd (marker g)))" by simp
  obtain g1 where g1: "changeTile g = Inr g1"
    using changeTile_in_bounds[OF inb'] by blast
  from g1 have m1: "marker g1 = marker g"
    and tw: "tileWidth (tmap g1) = tileWidth (tmap g)" "tileHeight (tmap g1) = tileHeight (tmap g)"
    and wh: "width (tmap g1) = width (tmap g)" "height (tmap g1) = height (tmap g)"
    unfolding changeTile_in_bounds[OF inb'] by auto
  then have c1: "(worldToTileX (tmap g1) (fst (marker g1)), worldToTileY (tmap g1) (snd (marker g1))) = c"
    using assms(3) by (simp add: worldToTileX_def worldToTileY_def)
  have "inLayerBounds (tmap g1) (fst c) (snd c)"
    using inb wh by (simp add: inLayerBounds_def)
  with c1 have inb1: "inLayerBounds (tmap g1) (worldToTileX (tmap g1) (fst (marker g1)))
                                (worldToTileY (tmap g1) (snd (marker g1)))"
    by (metis fst_conv snd_conv)
  obtain g2 where g2: "changeTile g1 = Inr g2"
    using changeTile_in_bounds[OF inb1] by blast
  have p: "pointsToAvoid (finder g1) = insert c (pointsToAvoid (finder g))"
    and r: "grid (finder g1) = grid (finder g)"
      "acceptableTiles (finder g1) = acceptableTiles (finder g)"
      "costMap (finder g1) = costMap (finder g)"
    and o: "\<forall>c'. c' \<noteq> c \<longrightarrow> tiles (worldLayer (tmap g1)) c' = tiles (worldLayer (tmap g)) c'"
    using g1 assms(3) unfolding changeTile_in_bounds[OF inb'] by auto
  have t1: "\<exists>t. tiles (worldLayer (tmap g1)) c = Some t \<and> index t = 2 \<and> collision t"
    using g1 assms(3) unfolding changeTile_in_bounds[OF inb'] by (auto split: option.splits)
  have f2: "finder g2 = finder g1"
    using g2 p unfolding changeTile_in_bounds[OF inb1] c1
    by (cases "finder g1") (auto simp: insert_absorb)
  from t1 obtain t where t: "tiles (worldLayer (tmap g1)) c = Some t" "index t = 2" "collision t"
    by blast
  then have "t\<lparr>index := 2, collision := True\<rparr> = t" by simp
  with t have "(tiles (worldLayer (tmap g1)))(c \<mapsto> t\<lparr>index := 2, collision := True\<rparr>) =
      tiles (worldLayer (tmap g1))"
    by (simp add: fun_upd_idem)
  with t have m2: "tmap g2 = tmap g1"
    using g2 unfolding changeTile_in_bounds[OF inb1] c1 by auto
  from g1 g2 p r o f2 m2
  show "\<exists>g1. changeTile g = Inr g1 \<and>
                  pointsToAvoid (finder g1) = insert c (pointsToAvoid (finder g)) \<and>
                  grid (finder g1) = grid (finder g) \<and>
                  acceptableTiles (finder g1) = acceptableTiles (finder g) \<and>
                  costMap (finder g1) = costMap (finder g) \<and>
                  (\<forall>c'. c' \<noteq> c \<longrightarrow>
                     tiles (worldLayer (tmap g1)) c' = tiles (worldLayer (tmap g)) c') \<and>
                  (\<exists>g2. changeTile g1 = Inr g2 \<and> tmap g2 = tmap g1 \<and> finder g2 = finder g1)"
    by blast
qed

theorem changeTile_marks_cell_witness:
  "0 < tileWidth (tmap example_game) \<and> 0 < tileHeight (tmap example_game) \<and>
   inLayerBounds (tmap example_game) 2 1 \<and>
   (\<exists>g1. changeTile example_game = Inr g1 \<and>
         pointsToAvoid (finder g1) = {(2, 1)} \<and>
         tiles (worldLayer (tmap g1)) (1, 0) = Some wall \<and>
         (\<exists>g2. changeTile g1 = Inr g2 \<and> tmap g2 = tmap g1 \<and> finder g2 = finder g1)) \<and>
   \<not> inLayerBounds (tmap (example_game\<lparr>marker := (200, 200)\<rparr>)) 6 6 \<and>
   changeTile (example_game\<lparr>marker := (200, 200)\<rparr>) = Inl TypeError"
proof -
  have p: "0 < tileWidth (tmap example_game)" "0 < tileHeight (tmap example_game)"
    by (simp_all add: example_game_def example_map_def)
  have c: "((2, 1) :: cell) = (worldToTileX (tmap example_game) (fst (marker example_game)),
                    worldToTileY (tmap example_game) (snd (marker example_game)))"
    by (simp add: worldToTileX_def worldToTileY_def example_game_def example_map_def)
  have i: "inLayerBounds (tmap example_game) 2 1"
    by (simp add: inLayerBounds_def example_game_def example_map_def)
  from changeTile_marks_cell [OF p c] i
  obtain g1 where g1: "changeTile example_game = Inr g1"
    and a: "pointsToAvoid (finder g1) = insert (2, 1) (pointsToAvoid (finder example_game))"
    and o: "\<forall>c'. c' \<noteq> (2, 1) \<longrightarrow>
              tiles (worldLayer (tmap g1)) c' = tiles (worldLayer (tmap example_game)) c'"
    and t: "\<exists>g2. changeTile g1 = Inr g2 \<and> tmap g2 = tmap g1 \<and> finder g2 = finder g1"
    by auto
  from a have a': "pointsToAvoid (finder g1) = {(2, 1)}"
    by (simp add: example_game_def example_finder_def)
  from o have "tiles (worldLayer (tmap g1)) (1, 0) = tiles (worldLayer (tmap example_game)) (1, 0)"
    by simp
  then have o': "tiles (worldLayer (tmap g1)) (1, 0) = Some wall"
    by (simp add: example_game_def example_map_def)
  have p': "0 < tileWidth (tmap (example_game\<lparr>marker := (200, 200)\<rparr>))"
    "0 < tileHeight (tmap (example_game\<lparr>marker := (200, 200)\<rparr>))"
    by (simp_all add: example_game_def example_map_def)
  have c': "((6, 6) :: cell) =
      (worldToTileX (tmap (example_game\<lparr>marker := (200, 200)\<rparr>))
         (fst (marker (example_game\<lparr>marker := (200, 200)\<rparr>))),
       worldToTileY (tmap (example_game\<lparr>marker := (200, 200)\<rparr>))
         (snd (marker (example_game\<lparr>marker := (200, 200)\<rparr>))))"
    by (simp add: worldToTileX_def worldToTileY_def example_game_def example_map_def)
  have i': "\<not> inLayerBounds (tmap (example_game\<lparr>marker := (200, 200)\<rparr>)) 6 6"
    by (simp add: inLayerBounds_def example_game_def example_map_def)
  from changeTile_marks_cell [OF p' c'] i'
  have e: "changeTile (example_game\<lparr>marker := (200, 200)\<rparr>) = Inl TypeError" by simp
  from p i g1 a' o' t i' e show ?thesis by blast
qed

text \<open>
  With the marker at world position \<open>(200, 200)\<close>, over cell \<open>(6, 6)\<close> outside the 3 by 2 map,
  \<open>changeTile\<close> raises a \<open>TypeError\<close>.
\<close>

theorem changeTile_out_of_bounds_counterexample:
  "\<not> inLayerBounds (tmap example_game) (worldToTileX (tmap example_game) 200)
       (worldToTileY (tmap example_game) 200) \<and>
   changeTile (example_game\<lparr>marker := (200, 200)\<rparr>) = Inl TypeError"
  by (simp add: changeTile_def putTileAtWorldXY_def Let_def worldToTileX_def worldToTileY_def
      inLayerBounds_def example_game_def example_map_def)

subsection \<open>handleClick\<close>

lemma handleClick_eq:
  "handleClick pathSearch pointer g =
     changeTile (pathCallback (pathSearch (finder g) (click_from g) (click_to pointer g)) g)"
  by (simp add: handleClick_def Let_def click_from_def click_to_def split: prod.splits)


lemma changeTile_Inr_keeps:
  assumes "changeTile g = Inr g'"
  shows "timelines g' = timelines g"
  using assms
  by (auto simp: changeTile_def Let_def split: prod.splits option.splits)




subsection \<open>The path search\<close>

lemma set_insert_entry: "set (insert_entry e xs) = insert e (set xs)"
  by (induction xs) auto

lemma set_foldl_insert_entry:
  "set (foldl (\<lambda>fr n. insert_entry (h n) fr) fr ns) = set fr \<union> h ` set ns"
  by (induction ns arbitrary: fr) (auto simp: set_insert_entry)

lemma set_expand:
  "set (expand f (k, c, trail) visited frontier) =
     set frontier \<union>
     (\<lambda>n. (k + costOf f n, n, c # trail)) `
       {n \<in> set (neighbours c). isWalkable f n \<and> n \<notin> set visited}"
  by (simp add: expand_def set_foldl_insert_entry)

lemma neighbours_adjacent: "n \<in> set (neighbours c) \<longleftrightarrow> adjacent c n"
  by (cases c; cases n) (auto simp: neighbours_def adjacent_def)

lemma adjacent_sym: "adjacent a b \<longleftrightarrow> adjacent b a"
  by (auto simp: adjacent_def)

lemma is_route_not_Nil: "is_route f p \<Longrightarrow> p \<noteq> []"
  by auto

lemma is_route_Cons:
  "is_route f (a # p) \<longleftrightarrow> isWalkable f a \<and> (p = [] \<or> adjacent a (hd p) \<and> is_route f p)"
  by (cases p) auto

lemma is_route_snoc:
  "is_route f (p @ [c]) \<longleftrightarrow> isWalkable f c \<and> (p = [] \<or> adjacent (last p) c \<and> is_route f p)"
proof (induction p rule: is_route.induct[of _ f])
  case (3 f' a b cs)
  then show ?case by (auto simp: is_route_Cons)
qed auto

lemma is_route_rev: "is_route f (rev p) \<longleftrightarrow> is_route f p"
proof (induction p)
  case Nil
  show ?case by simp
next
  case (Cons a p)
  show ?case
  proof (cases "p = []")
    case True
    then show ?thesis by simp
  next
    case False
    then have "last (rev p) = hd p" by (simp add: last_rev)
    with Cons False show ?thesis
      by (auto simp: is_route_snoc is_route_Cons adjacent_sym)
  qed
qed

lemma is_route_walkable: "is_route f p \<Longrightarrow> c \<in> set p \<Longrightarrow> isWalkable f c"
  by (induction f p rule: is_route.induct) auto

lemma is_route_nth:
  "is_route f p \<Longrightarrow> Suc i < length p \<Longrightarrow> adjacent (p ! i) (p ! Suc i)"
proof (induction f p arbitrary: i rule: is_route.induct)
  case (3 f a b cs)
  then show ?case by (cases i) auto
qed auto

lemma is_route_closed:
  "is_route f r \<Longrightarrow> hd r \<in> V \<Longrightarrow>
   (\<forall>v \<in> V. \<forall>n. adjacent v n \<and> isWalkable f n \<longrightarrow> n \<in> V) \<Longrightarrow> last r \<in> V"
proof (induction f r rule: is_route.induct)
  case (3 f a b cs)
  from "3.prems" have "isWalkable f b" "adjacent a b" "a \<in> V"
    by (auto simp: is_route_Cons)
  with "3.prems"(3) have "b \<in> V" by blast
  with "3.IH" "3.prems" show ?case by simp
qed auto

lemma search_sound:
  "\<forall>e \<in> set frontier. entry_ok f start e \<Longrightarrow> search f goal frontier visited = Some p \<Longrightarrow>
   is_route f p \<and> hd p = start \<and> last p = goal"
proof (induction f goal frontier visited rule: search.induct)
  case (1 f goal visited)
  then show ?case by (simp add: search.simps)
next
  case (2 f goal k c trail frontier visited)
  show ?case
  proof (cases "c \<in> set visited \<or> \<not> isWalkable f c")
    case True
    with "2.prems" have "search f goal frontier visited = Some p"
      by (simp add: search.simps)
    with "2.IH"(1)[OF True] "2.prems"(1) show ?thesis by simp
  next
    case False
    from "2.prems"(1) have ok: "is_route f (c # trail)" "last (c # trail) = start"
      by (simp_all add: entry_ok_def)
    show ?thesis
    proof (cases "c = goal")
      case True
      with False "2.prems"(2) have p: "p = rev (c # trail)" by (simp add: search.simps)
      have "is_route f (rev (c # trail))" using ok(1) by (simp only: is_route_rev)
      moreover have "hd (rev (c # trail)) = last (c # trail)" by (rule hd_rev)
      with ok(2) have "hd (rev (c # trail)) = start" by (simp only:)
      moreover have "last (rev (c # trail)) = goal" using True by simp
      ultimately show ?thesis unfolding p by blast
    next
      case ng: False
      with False "2.prems"(2)
      have rec: "search f goal (expand f (k, c, trail) (c # visited) frontier) (c # visited) = Some p"
        by (simp add: search.simps)
      have "\<forall>e \<in> set (expand f (k, c, trail) (c # visited) frontier). entry_ok f start e"
      proof
        fix e assume "e \<in> set (expand f (k, c, trail) (c # visited) frontier)"
        then consider "e \<in> set frontier"
          | n where "e = (k + costOf f n, n, c # trail)" "n \<in> set (neighbours c)" "isWalkable f n"
          by (auto simp: set_expand)
        then show "entry_ok f start e"
        proof cases
          case 1
          with "2.prems"(1) show ?thesis by simp
        next
          case 2
          then have "adjacent n c" by (simp add: neighbours_adjacent adjacent_sym)
          with 2 ok show ?thesis by (simp add: entry_ok_def)
        qed
      qed
      from "2.IH"(2)[OF False ng this rec] show ?thesis .
    qed
  qed
qed

lemma search_complete:
  "search_inv f start goal frontier visited \<Longrightarrow>
   is_route f r \<Longrightarrow> hd r = start \<Longrightarrow> last r = goal \<Longrightarrow>
   search f goal frontier visited \<noteq> None"
proof (induction f goal frontier visited rule: search.induct)
  case (1 f goal visited)
  from "1.prems"(1) have inv: "goal \<notin> set visited"
    "\<forall>v \<in> set visited. \<forall>n. adjacent v n \<and> isWalkable f n \<longrightarrow> n \<in> set visited"
    "start \<in> set visited"
    by (simp_all add: search_inv_def)
  from is_route_closed[OF "1.prems"(2), of "set visited"] inv(2,3) "1.prems"(3)
  have "last r \<in> set visited" by blast
  with inv(1) "1.prems"(4) show ?case by simp
next
  case (2 f goal k c trail frontier visited)
  from "2.prems"(1) have inv: "goal \<notin> set visited"
    "\<forall>v \<in> set visited. \<forall>n. adjacent v n \<and> isWalkable f n \<longrightarrow>
        n \<in> set visited \<or> n = c \<or> n \<in> (fst \<circ> snd) ` set frontier"
    "start \<in> set visited \<or> start = c \<or> start \<in> (fst \<circ> snd) ` set frontier"
    by (auto simp: search_inv_def)
  from "2.prems"(2,3) have ws: "isWalkable f start"
    by (cases r) (auto simp: is_route_Cons)
  show ?case
  proof (cases "c \<in> set visited \<or> \<not> isWalkable f c")
    case True
    have "search_inv f start goal frontier visited"
      unfolding search_inv_def using inv ws True by blast
    from "2.IH"(1)[OF True this "2.prems"(2,3,4)] True show ?thesis
      by (simp add: search.simps)
  next
    case False
    show ?thesis
    proof (cases "c = goal")
      case True
      with False show ?thesis by (simp add: search.simps)
    next
      case ng: False
      let ?fr = "expand f (k, c, trail) (c # visited) frontier"
      have heads: "(fst \<circ> snd) ` set ?fr =
          (fst \<circ> snd) ` set frontier \<union>
          {n \<in> set (neighbours c). isWalkable f n \<and> n \<notin> set (c # visited)}"
        by (auto simp: set_expand image_Un image_image)
      have "search_inv f start goal ?fr (c # visited)"
        unfolding search_inv_def heads
      proof (intro conjI ballI allI impI)
        show "goal \<notin> set (c # visited)" using inv(1) ng by auto
      next
        fix v n assume v: "v \<in> set (c # visited)" and n: "adjacent v n \<and> isWalkable f n"
        show "n \<in> set (c # visited) \<or>
              n \<in> (fst \<circ> snd) ` set frontier \<union>
                {n \<in> set (neighbours c). isWalkable f n \<and> n \<notin> set (c # visited)}"
        proof (cases "v = c")
          case True
          with n show ?thesis by (auto simp: neighbours_adjacent)
        next
          case False
          with v have "v \<in> set visited" by simp
          with inv(2) n have "n \<in> set visited \<or> n = c \<or> n \<in> (fst \<circ> snd) ` set frontier"
            by blast
          then show ?thesis by auto
        qed
      next
        show "start \<in> set (c # visited) \<or>
              start \<in> (fst \<circ> snd) ` set frontier \<union>
                {n \<in> set (neighbours c). isWalkable f n \<and> n \<notin> set (c # visited)}"
          using inv(3) by auto
      qed
      from "2.IH"(2)[OF False ng this "2.prems"(2,3,4)] False ng show ?thesis
        by (simp add: search.simps)
    qed
  qed
qed

lemma findPath_sound:
  assumes "findPath f start goal = Some p"
  shows "is_route f p \<and> hd p = start \<and> last p = goal"
proof -
  from assms have w: "isWalkable f start" and s: "search f goal [(0, start, [])] [] = Some p"
    by (auto simp: findPath_def split: if_splits)
  from w have "\<forall>e \<in> set [(0, start, [])]. entry_ok f start e"
    by (simp add: entry_ok_def)
  from search_sound[OF this s] show ?thesis .
qed

lemma findPath_complete:
  assumes "is_route f r" "hd r = start" "last r = goal"
  shows "\<exists>p. findPath f start goal = Some p"
proof -
  from assms have "r \<noteq> []" by auto
  with assms have w: "isWalkable f start" "isWalkable f goal"
    using is_route_walkable[OF assms(1)] by (metis hd_in_set, metis last_in_set)
  have "search_inv f start goal [(0, start, [])] []"
    by (simp add: search_inv_def)
  from search_complete[OF this assms] w show ?thesis
    by (auto simp: findPath_def)
qed

lemma moveCharacter_adds_timeline:
  "length (timelines (moveCharacter p g)) = Suc (length (timelines g))"
  by (simp add: moveCharacter_def Let_def)

text \<open>
  C1. Whenever a walkable route leads from the start cell to the goal cell of a click (so
  that both are in bounds and walkable), the search hands the callback a path: it is not
  empty, its first cell is the start, its last cell is the goal, consecutive cells are
  4-directionally adjacent, and its cells are walkable. \<open>handleClick\<close> passes this path to
  \<open>moveCharacter\<close>.
\<close>

theorem findPath_delivers_route:
  assumes "is_route (finder g) r" and "hd r = click_from g" and "last r = click_to pointer g"
  shows "\<exists>p. findPath (finder g) (click_from g) (click_to pointer g) = Some p \<and>
             p \<noteq> [] \<and> hd p = click_from g \<and> last p = click_to pointer g \<and>
             (\<forall>i. Suc i < length p \<longrightarrow>
                adjacent (p ! i) (p ! Suc i) \<and>
                isWalkable (finder g) (p ! i) \<and> isWalkable (finder g) (p ! Suc i)) \<and>
             handleClick findPath pointer g = changeTile (moveCharacter p g)"
proof -
  from findPath_complete[OF assms] obtain p where
    p: "findPath (finder g) (click_from g) (click_to pointer g) = Some p" by blast
  from findPath_sound[OF p] have route: "is_route (finder g) p"
    and ends: "hd p = click_from g" "last p = click_to pointer g" by blast+
  from route have ne: "p \<noteq> []" by auto
  have steps: "\<forall>i. Suc i < length p \<longrightarrow>
                adjacent (p ! i) (p ! Suc i) \<and>
                isWalkable (finder g) (p ! i) \<and> isWalkable (finder g) (p ! Suc i)"
    using is_route_nth[OF route] is_route_walkable[OF route] by simp
  have call: "handleClick findPath pointer g = changeTile (moveCharacter p g)"
    by (simp add: handleClick_eq p pathCallback_def)
  from p ne ends steps call show ?thesis by blast
qed

theorem findPath_delivers_route_witness:
  "is_route (finder example_game) [(0, 0), (0, 1)] \<and>
   hd [(0, 0), (0, 1)] = click_from example_game \<and>
   last [(0, 0), (0, 1)] = click_to (10, 40) example_game \<and>
   (\<exists>p. findPath (finder example_game) (click_from example_game)
           (click_to (10, 40) example_game) = Some p \<and>
        hd p = (0, 0) \<and> last p = (0, 1) \<and>
        handleClick findPath (10, 40) example_game = changeTile (moveCharacter p example_game))"
proof -
  have r: "is_route (finder example_game) [(0, 0), (0, 1)]"
    by (simp add: isWalkable_def adjacent_def example_game_def example_finder_def)
  have h: "hd [(0, 0), (0, 1)] = click_from example_game"
    by (simp add: click_from_def example_game_def)
  have l: "last [(0, 0), (0, 1)] = click_to (10, 40) example_game"
    by (simp add: click_to_def example_game_def)
  from findPath_delivers_route [OF r h l] obtain p where
    p: "findPath (finder example_game) (click_from example_game)
           (click_to (10, 40) example_game) = Some p"
    and e: "hd p = click_from example_game" "last p = click_to (10, 40) example_game"
    and c: "handleClick findPath (10, 40) example_game = changeTile (moveCharacter p example_game)"
    by blast
  from e h l have e': "hd p = (0, 0)" "last p = (0, 1)" by simp_all
  from r h l p e' c show ?thesis by blast
qed

text \<open>
  C8. When no walkable route leads from the start cell to the goal cell of a click, the
  search hands \<open>null\<close> to the callback, as a value and not as an exception. The callback
  leaves the state as it is: \<open>moveCharacter\<close> is not invoked, with no path whatever, and
  \<open>handleClick\<close> creates no timeline of tweens.
\<close>

theorem handleClick_unreachable_no_movement:
  assumes "\<not> (\<exists>r. is_route (finder g) r \<and> hd r = click_from g \<and> last r = click_to pointer g)"
  shows "findPath (finder g) (click_from g) (click_to pointer g) = None \<and>
         pathCallback (findPath (finder g) (click_from g) (click_to pointer g)) g = g \<and>
         (\<forall>p. pathCallback (findPath (finder g) (click_from g) (click_to pointer g)) g \<noteq>
                moveCharacter p g) \<and>
         handleClick findPath pointer g = changeTile g \<and>
         (\<forall>g'. handleClick findPath pointer g = Inr g' \<longrightarrow> timelines g' = timelines g)"
proof -
  have n: "findPath (finder g) (click_from g) (click_to pointer g) = None"
  proof (rule ccontr)
    assume "findPath (finder g) (click_from g) (click_to pointer g) \<noteq> None"
    then obtain p where "findPath (finder g) (click_from g) (click_to pointer g) = Some p"
      by blast
    from findPath_sound[OF this] assms show False by blast
  qed
  have cb: "pathCallback (findPath (finder g) (click_from g) (click_to pointer g)) g = g"
    by (simp add: n pathCallback_def)
  have "g \<noteq> moveCharacter p g" for p
  proof
    assume "g = moveCharacter p g"
    then have "length (timelines g) = length (timelines (moveCharacter p g))" by simp
    then show False by (simp add: moveCharacter_adds_timeline)
  qed
  with cb have nm: "\<forall>p. pathCallback (findPath (finder g) (click_from g) (click_to pointer g)) g \<noteq>
                moveCharacter p g"
    by simp
  have call: "handleClick findPath pointer g = changeTile g"
    by (simp add: handleClick_eq cb)
  have "timelines g' = timelines g" if "handleClick findPath pointer g = Inr g'" for g'
    using changeTile_Inr_keeps[OF that[unfolded call]] .
  with n cb nm call show ?thesis by blast
qed

lemma example_unreachable:
  "findPath (finder example_game) (click_from example_game) (click_to (70, 8) example_game) = None"
  by code_simp

theorem handleClick_unreachable_no_movement_witness:
  "\<not> (\<exists>r. is_route (finder example_game) r \<and> hd r = click_from example_game \<and>
          last r = click_to (70, 8) example_game) \<and>
   findPath (finder example_game) (click_from example_game) (click_to (70, 8) example_game) = None \<and>
   (\<exists>g'. handleClick findPath (70, 8) example_game = Inr g' \<and> timelines g' = [])"
proof -
  have h: "\<not> (\<exists>r. is_route (finder example_game) r \<and> hd r = click_from example_game \<and>
          last r = click_to (70, 8) example_game)"
  proof
    assume "\<exists>r. is_route (finder example_game) r \<and> hd r = click_from example_game \<and>
          last r = click_to (70, 8) example_game"
    then obtain r where "is_route (finder example_game) r" "hd r = click_from example_game"
      "last r = click_to (70, 8) example_game" by blast
    from findPath_complete[OF this] example_unreachable show False by simp
  qed
  have i: "inLayerBounds (tmap example_game)
             (worldToTileX (tmap example_game) (fst (marker example_game)))
             (worldToTileY (tmap example_game) (snd (marker example_game)))"
    by (simp add: inLayerBounds_def worldToTileX_def worldToTileY_def example_game_def
        example_map_def)
  from changeTile_in_bounds[OF i] obtain g' where c: "changeTile example_game = Inr g'" by blast
  from handleClick_unreachable_no_movement [OF h]
  have n: "findPath (finder example_game) (click_from example_game)
             (click_to (70, 8) example_game) = None"
    and call: "handleClick findPath (70, 8) example_game = changeTile example_game"
    and k: "\<forall>g'. handleClick findPath (70, 8) example_game = Inr g' \<longrightarrow>
            timelines g' = timelines example_game"
    by blast+
  from call c have r: "handleClick findPath (70, 8) example_game = Inr g'" by simp
  with k have "timelines g' = timelines example_game" by blast
  then have t: "timelines g' = []" by (simp add: example_game_def)
  from h n r t show ?thesis by blast
qed

lemma findPath_no_route:
  assumes "\<not> (\<exists>r. is_route f r \<and> hd r = s \<and> last r = t)"
  shows "findPath f s t = None"
proof (rule ccontr)
  assume "findPath f s t \<noteq> None"
  then obtain p where "findPath f s t = Some p" by blast
  from findPath_sound[OF this] assms show False by blast
qed

text \<open>
  C7, as the program has it. For every path request whose start or goal cell is itself
  non-walkable, the result surfaced to the callback is \<open>NotFound\<close>, as the bare value \<open>null\<close>:
  the callback takes the one value \<open>path\<close> and tests it against \<open>null\<close>, so no reason comes
  with it. It is the very value that a request for an unreachable goal surfaces, and
  \<open>handleClick\<close> has the same outcome in both cases, that of \<open>changeTile\<close> alone.
\<close>

theorem handleClick_invalid_endpoint_null:
  assumes "\<not> isWalkable (finder g) (click_from g) \<or> \<not> isWalkable (finder g) (click_to pointer g)"
  shows "findPath (finder g) (click_from g) (click_to pointer g) = None \<and>
         pathCallback (findPath (finder g) (click_from g) (click_to pointer g)) g = g \<and>
         handleClick findPath pointer g = changeTile g \<and>
         (\<forall>pointer'.
            \<not> (\<exists>r. is_route (finder g) r \<and> hd r = click_from g \<and> last r = click_to pointer' g) \<longrightarrow>
            findPath (finder g) (click_from g) (click_to pointer' g) =
              findPath (finder g) (click_from g) (click_to pointer g) \<and>
            handleClick findPath pointer' g = handleClick findPath pointer g)"
proof -
  from assms have n: "findPath (finder g) (click_from g) (click_to pointer g) = None"
    by (auto simp: findPath_def)
  then have cb: "pathCallback (findPath (finder g) (click_from g) (click_to pointer g)) g = g"
    by (simp add: pathCallback_def)
  have call: "handleClick findPath pointer g = changeTile g"
    by (simp add: handleClick_eq cb)
  have "findPath (finder g) (click_from g) (click_to pointer' g) =
              findPath (finder g) (click_from g) (click_to pointer g) \<and>
        handleClick findPath pointer' g = handleClick findPath pointer g"
    if "\<not> (\<exists>r. is_route (finder g) r \<and> hd r = click_from g \<and> last r = click_to pointer' g)"
    for pointer'
  proof -
    from findPath_no_route[OF that]
    have n': "findPath (finder g) (click_from g) (click_to pointer' g) = None" .
    then have "handleClick findPath pointer' g = changeTile g"
      by (simp add: handleClick_eq pathCallback_def)
    with n n' call show ?thesis by simp
  qed
  with n cb call show ?thesis by blast
qed

theorem handleClick_invalid_endpoint_null_witness:
  "\<not> isWalkable (finder example_game) (click_to (40, 8) example_game) \<and>
   findPath (finder example_game) (click_from example_game) (click_to (40, 8) example_game) = None \<and>
   handleClick findPath (40, 8) example_game = changeTile example_game \<and>
   \<not> (\<exists>r. is_route (finder example_game) r \<and> hd r = click_from example_game \<and>
          last r = click_to (70, 8) example_game) \<and>
   findPath (finder example_game) (click_from example_game) (click_to (70, 8) example_game) =
     findPath (finder example_game) (click_from example_game) (click_to (40, 8) example_game) \<and>
   handleClick findPath (70, 8) example_game = handleClick findPath (40, 8) example_game"
proof -
  have w: "\<not> isWalkable (finder example_game) (click_to (40, 8) example_game)"
    by code_simp
  then have h: "\<not> isWalkable (finder example_game) (click_from example_game) \<or>
                \<not> isWalkable (finder example_game) (click_to (40, 8) example_game)"
    by (rule disjI2)
  have u: "\<not> (\<exists>r. is_route (finder example_game) r \<and> hd r = click_from example_game \<and>
          last r = click_to (70, 8) example_game)"
  proof
    assume "\<exists>r. is_route (finder example_game) r \<and> hd r = click_from example_game \<and>
          last r = click_to (70, 8) example_game"
    then obtain r where "is_route (finder example_game) r" "hd r = click_from example_game"
      "last r = click_to (70, 8) example_game" by blast
    from findPath_complete[OF this] example_unreachable show False by simp
  qed
  from handleClick_invalid_endpoint_null [OF h]
  have n: "findPath (finder example_game) (click_from example_game)
             (click_to (40, 8) example_game) = None"
    and call: "handleClick findPath (40, 8) example_game = changeTile example_game"
    and same: "\<forall>pointer'.
            \<not> (\<exists>r. is_route (finder example_game) r \<and> hd r = click_from example_game \<and>
                   last r = click_to pointer' example_game) \<longrightarrow>
            findPath (finder example_game) (click_from example_game) (click_to pointer' example_game) =
              findPath (finder example_game) (click_from example_game)
                (click_to (40, 8) example_game) \<and>
            handleClick findPath pointer' example_game = handleClick findPath (40, 8) example_game"
    by blast+
  from same u have s: "findPath (finder example_game) (click_from example_game)
        (click_to (70, 8) example_game) =
      findPath (finder example_game) (click_from example_game) (click_to (40, 8) example_game)"
    and s': "handleClick findPath (70, 8) example_game = handleClick findPath (40, 8) example_game"
    by blast+
  from w n call u s s' show ?thesis by blast
qed

text \<open>
  On the small map, the player stands in cell \<open>(0, 0)\<close>. A click on the wall cell \<open>(1, 0)\<close> asks
  for a non-walkable goal; a click on cell \<open>(2, 0)\<close> asks for a walkable goal behind the wall,
  which no route reaches. The callback receives the same value, \<open>null\<close>, in both cases.
\<close>

theorem findPath_no_reason_counterexample:
  "\<not> isWalkable (finder example_game) (click_to (40, 8) example_game) \<and>
   isWalkable (finder example_game) (click_from example_game) \<and>
   isWalkable (finder example_game) (click_to (70, 8) example_game) \<and>
   findPath (finder example_game) (click_from example_game) (click_to (40, 8) example_game) = None \<and>
   findPath (finder example_game) (click_from example_game) (click_to (70, 8) example_game) = None"
  by code_simp

subsection \<open>changeTile and walkability\<close>

text \<open>
  After a successful \<open>changeTile\<close>, the cell under the marker is not walkable for the search,
  and every other cell is walkable exactly when it was before.
\<close>

lemma changeTile_blocks_cell:
  assumes "changeTile g = Inr g'"
    and "c = (worldToTileX (tmap g) (fst (marker g)), worldToTileY (tmap g) (snd (marker g)))"
  shows "isWalkable (finder g') c' \<longleftrightarrow> isWalkable (finder g) c' \<and> c' \<noteq> c"
proof -
  from assms(1) have inb: "inLayerBounds (tmap g) (worldToTileX (tmap g) (fst (marker g)))
                                (worldToTileY (tmap g) (snd (marker g)))"
    using changeTile_out_of_bounds[of g] by auto
  from assms show ?thesis
    unfolding changeTile_in_bounds[OF inb]
    by (cases c') (auto simp: isWalkable_def)
qed

end
